theory Spec2Isabelle
  imports Complex_Main "HOL-Library.Multiset"
begin

section \<open>Python and JavaScript string primitives used by the sources\<close>

text \<open>
  A source string is modelled as a \<^typ>\<open>string\<close> whose characters are code points below
  256 (the Latin-1 range), so \<open>length\<close> counts code points as Python's \<open>len\<close> does.
\<close>

text \<open>\<open>sep.join(xs)\<close>.\<close>

fun join :: "string \<Rightarrow> string list \<Rightarrow> string" where
  "join sep [] = []"
| "join sep [x] = x"
| "join sep (x # y # ys) = x @ sep @ join sep (y # ys)"

section \<open>Exceptions\<close>

text \<open>
  The exception classes raised by the Python snippets. \<open>str(e)\<close> of each is its message.
\<close>

datatype exn =
    FileNotFoundError string
  | NotADirectoryError string
  | PermissionError string
  | SecurityError string
  | ValidationError string exn
  | InvalidParametersError string
  | OSError string
  | TypeError string

fun str_exn :: "exn \<Rightarrow> string" where
  "str_exn (FileNotFoundError m) = m"
| "str_exn (NotADirectoryError m) = m"
| "str_exn (PermissionError m) = m"
| "str_exn (SecurityError m) = m"
| "str_exn (ValidationError m cause) = m"
| "str_exn (InvalidParametersError m) = m"
| "str_exn (OSError m) = m"
| "str_exn (TypeError m) = m"

section \<open>validation\_rules.py: ParameterValidator.validate\_params\<close>

text \<open>
  \<^verbatim>\<open>
  def validate_params(params):
      errors = []
      if not (0 <= params['temperature'] <= 1):
          errors.append("Temperature out of range (0-1)")
      if params['max_length'] <= 0:
          errors.append("Invalid max length")
      if errors:
          raise InvalidParametersError(", ".join(errors))
  \<close>
  The parameter dictionary carries a numeric temperature and an integer length, as the
  configuration and the sliders produce them.
\<close>

record params =
  temperature :: real
  max_length :: int

definition validate_params :: "'a params_scheme \<Rightarrow> exn + unit" where
  "validate_params p =
     (let errors = [];
          errors = (if \<not> (0 \<le> temperature p \<and> temperature p \<le> 1)
                    then errors @ [''Temperature out of range (0-1)''] else errors);
          errors = (if max_length p \<le> 0
                    then errors @ [''Invalid max length''] else errors)
      in if errors \<noteq> [] then Inl (InvalidParametersError (join '', '' errors))
         else Inr ())"

section \<open>More string primitives\<close>

definition nl :: char where
  "nl = CHR 0x0A"

definition quote :: char where
  "quote = CHR 0x27"

text \<open>\<open>s.startswith(p)\<close>, \<open>s.endswith(p)\<close> and \<open>sub in s\<close>.\<close>

definition startswith :: "string \<Rightarrow> string \<Rightarrow> bool" where
  "startswith s p = (take (length p) s = p)"

definition endswith :: "string \<Rightarrow> string \<Rightarrow> bool" where
  "endswith s p = (length p \<le> length s \<and> drop (length s - length p) s = p)"

fun contains :: "string \<Rightarrow> string \<Rightarrow> bool" where
  "contains sub [] = (sub = [])"
| "contains sub (c # cs) = (startswith (c # cs) sub \<or> contains sub cs)"

text \<open>
  \<open>str.isspace\<close> on the code points below 256, and \<open>s.split()\<close> with no argument:
  the maximal runs of non-space characters, in order.
\<close>

definition py_isspace :: "char \<Rightarrow> bool" where
  "py_isspace c = (let n = (of_char c :: nat) in
     (9 \<le> n \<and> n \<le> 13) \<or> (28 \<le> n \<and> n \<le> 32) \<or> n = 133 \<or> n = 160)"

fun split_acc :: "string \<Rightarrow> string \<Rightarrow> string list" where
  "split_acc cur [] = (if cur = [] then [] else [cur])"
| "split_acc cur (c # cs) =
     (if py_isspace c then (if cur = [] then split_acc [] cs else cur # split_acc [] cs)
      else split_acc (cur @ [c]) cs)"

definition py_split :: "string \<Rightarrow> string list" where
  "py_split s = split_acc [] s"

text \<open>\<open>s.lower()\<close> on the code points below 256.\<close>

definition py_lower_char :: "char \<Rightarrow> char" where
  "py_lower_char c = (let n = (of_char c :: nat) in
     if (65 \<le> n \<and> n \<le> 90) \<or> (192 \<le> n \<and> n \<le> 214) \<or> (216 \<le> n \<and> n \<le> 222)
     then char_of (n + 32) else c)"

definition py_lower :: "string \<Rightarrow> string" where
  "py_lower s = map py_lower_char s"

text \<open>
  The class \<open>[\w\-_]\<close> of the regular expression in \<open>write_markdown\<close>, on the code
  points below 256: \<open>\w\<close> is every alphanumeric code point and the underscore.
\<close>

definition is_word_char :: "char \<Rightarrow> bool" where
  "is_word_char c = (let n = (of_char c :: nat) in
     (48 \<le> n \<and> n \<le> 57) \<or> (65 \<le> n \<and> n \<le> 90) \<or> n = 95 \<or> (97 \<le> n \<and> n \<le> 122) \<or>
     n = 170 \<or> n = 178 \<or> n = 179 \<or> n = 181 \<or> n = 185 \<or> n = 186 \<or>
     (188 \<le> n \<and> n \<le> 190) \<or> (192 \<le> n \<and> n \<le> 214) \<or> (216 \<le> n \<and> n \<le> 246) \<or>
     248 \<le> n)"

definition filename_char :: "char \<Rightarrow> bool" where
  "filename_char c = (is_word_char c \<or> c = CHR ''-'' \<or> c = CHR ''_'')"

text \<open>\<open>s.split(sep)\<close> for a one-character separator.\<close>

fun split_on :: "char \<Rightarrow> string \<Rightarrow> string list" where
  "split_on sep [] = [[]]"
| "split_on sep (c # cs) =
     (if c = sep then [] # split_on sep cs
      else (case split_on sep cs of [] \<Rightarrow> [[c]] | w # ws \<Rightarrow> (c # w) # ws))"

text \<open>
  JavaScript's \<open>String.prototype.trim\<close>: white space and line terminators, on the code
  points below 256, are removed from both ends.
\<close>

definition js_is_space :: "char \<Rightarrow> bool" where
  "js_is_space c = (let n = (of_char c :: nat) in (9 \<le> n \<and> n \<le> 13) \<or> n = 32 \<or> n = 160)"

definition js_trim :: "string \<Rightarrow> string" where
  "js_trim s = rev (dropWhile js_is_space (rev (dropWhile js_is_space s)))"

section \<open>POSIX path functions\<close>

text \<open>\<open>os.path.join(a, b)\<close>, \<open>os.path.basename\<close> and \<open>os.path.normpath\<close>.\<close>

definition path_join :: "string \<Rightarrow> string \<Rightarrow> string" where
  "path_join a b =
     (if startswith b ''/'' then b
      else if a = [] \<or> endswith a ''/'' then a @ b
      else a @ ''/'' @ b)"

definition basename :: "string \<Rightarrow> string" where
  "basename p = rev (takeWhile (\<lambda>c. c \<noteq> CHR ''/'') (rev p))"

definition norm_step :: "nat \<Rightarrow> string \<Rightarrow> string list \<Rightarrow> string list" where
  "norm_step initial_slashes part new_parts =
     (if part = [] \<or> part = ''.'' then new_parts
      else if part \<noteq> ''..'' \<or> (initial_slashes = 0 \<and> new_parts = []) \<or>
              (new_parts \<noteq> [] \<and> last new_parts = ''..'')
           then new_parts @ [part]
      else if new_parts \<noteq> [] then butlast new_parts
      else new_parts)"

definition normpath :: "string \<Rightarrow> string" where
  "normpath path =
     (if path = [] then ''.''
      else
        let initial_slashes =
              (if startswith path ''/''
               then (if startswith path ''//'' \<and> \<not> startswith path ''///'' then 2 else 1)
               else (0::nat));
            parts = split_on CHR ''/'' path;
            new_parts = fold (norm_step initial_slashes) parts [];
            p = replicate initial_slashes CHR ''/'' @ join ''/'' new_parts
        in if p = [] then ''.'' else p)"

section \<open>File handling: validate\_directory and write\_markdown\<close>

text \<open>
  What the operating system answers about a path string: \<open>os.path.exists\<close>,
  \<open>os.path.isdir\<close> and \<open>os.access(path, os.W_OK)\<close> follow symbolic links;
  \<open>os.path.islink\<close> is the answer for the path string itself, which is false for a path
  that reaches a link through a trailing slash or through a linked parent directory.
  The file system also has the text files written so far and the longest file name, in
  bytes, that it takes (\<open>NAME_MAX\<close>, 255 on the common file systems).
\<close>

record filesystem =
  fs_exists :: "string \<Rightarrow> bool"
  fs_isdir :: "string \<Rightarrow> bool"
  fs_writable :: "string \<Rightarrow> bool"
  fs_islink :: "string \<Rightarrow> bool"
  fs_files :: "string \<rightharpoonup> string"
  fs_name_max :: nat

text \<open>
  The body of the \<open>try\<close> block of \<open>validate_directory\<close>: four checks in the order of the
  source, each raising its own exception.
\<close>

definition validate_directory_checks :: "filesystem \<Rightarrow> string \<Rightarrow> bool \<Rightarrow> exn + bool" where
  "validate_directory_checks fs path require_write =
     (if \<not> fs_exists fs path then Inl (FileNotFoundError (''Path does not exist: '' @ path))
      else if \<not> fs_isdir fs path then Inl (NotADirectoryError (''Not a directory: '' @ path))
      else if require_write \<and> \<not> fs_writable fs path
           then Inl (PermissionError (''Write access denied: '' @ path))
      else if fs_islink fs path
           then Inl (SecurityError ''Symlinks not allowed for security reasons'')
      else Inr True)"

text \<open>
  \<open>except Exception as e: raise ValidationError(str(e)) from e\<close>: every exception of the
  body reaches the caller as a ValidationError carrying the message and, as its cause,
  the original exception.
\<close>

definition validate_directory :: "filesystem \<Rightarrow> string \<Rightarrow> bool \<Rightarrow> exn + bool" where
  "validate_directory fs path require_write =
     (case validate_directory_checks fs path require_write of
        Inl e \<Rightarrow> Inl (ValidationError (str_exn e) e)
      | Inr ok \<Rightarrow> Inr ok)"

fun is_SecurityError :: "exn \<Rightarrow> bool" where
  "is_SecurityError (SecurityError m) = True"
| "is_SecurityError e = False"

fun fails_with_SecurityError :: "exn + 'a \<Rightarrow> bool" where
  "fails_with_SecurityError (Inl e) = is_SecurityError e"
| "fails_with_SecurityError (Inr v) = False"

text \<open>
  \<^verbatim>\<open>
  def write_markdown(content, directory, filename):
      validated = validate_directory(directory)
      safe_filename = re.sub(r'[^\w\-_]', '', filename)[:255]
      full_path = os.path.join(directory, f"{safe_filename}.md")
      with open(full_path, 'w', ...) as f:
          f.write(content)
      return os.path.normpath(full_path)
  \<close>
  \<open>open\<close> raises OSError (ENAMETOOLONG), and writes nothing, when the UTF-8 encoding of
  the file's name is longer than the file system takes; the stem is cut to 255
  characters before the extension is appended, so this happens. Otherwise the result is
  the file system after the write and the returned path.
\<close>

definition safe_filename :: "string \<Rightarrow> string" where
  "safe_filename filename = take 255 (filter filename_char filename)"

definition utf8_length :: "string \<Rightarrow> nat" where
  "utf8_length s = sum_list (map (\<lambda>c. if (of_char c :: nat) < 128 then 1 else 2) s)"

definition name_too_long :: "string \<Rightarrow> exn" where
  "name_too_long full_path =
     OSError (''[Errno 36] File name too long: '' @ [quote] @ full_path @ [quote])"

definition write_markdown ::
  "filesystem \<Rightarrow> string \<Rightarrow> string \<Rightarrow> string \<Rightarrow> exn + (filesystem \<times> string)" where
  "write_markdown fs content directory filename =
     (case validate_directory fs directory True of
        Inl e \<Rightarrow> Inl e
      | Inr validated \<Rightarrow>
          let full_path = path_join directory (safe_filename filename @ ''.md'')
          in if fs_name_max fs < utf8_length (basename full_path)
             then Inl (name_too_long full_path)
             else Inr (fs\<lparr>fs_files := (fs_files fs)(full_path \<mapsto> content)\<rparr>,
                       normpath full_path))"

text \<open>
  Three concrete file systems: a link \<open>/kb\<close> to a writable directory (the operating
  system answers for \<open>/kb/\<close> as for the directory the link points to), a link whose
  target is missing, and a plain writable directory \<open>/out\<close>.
\<close>

definition linked_dir_fs :: filesystem where
  "linked_dir_fs =
     \<lparr>fs_exists = (\<lambda>p. p = ''/kb'' \<or> p = ''/kb/'' \<or> p = ''/notes''),
      fs_isdir = (\<lambda>p. p = ''/kb'' \<or> p = ''/kb/'' \<or> p = ''/notes''),
      fs_writable = (\<lambda>p. p = ''/kb'' \<or> p = ''/kb/'' \<or> p = ''/notes''),
      fs_islink = (\<lambda>p. p = ''/kb''),
      fs_files = Map.empty,
      fs_name_max = 255\<rparr>"

definition dangling_link_fs :: filesystem where
  "dangling_link_fs =
     \<lparr>fs_exists = (\<lambda>p. False),
      fs_isdir = (\<lambda>p. False),
      fs_writable = (\<lambda>p. False),
      fs_islink = (\<lambda>p. p = ''/kb''),
      fs_files = Map.empty,
      fs_name_max = 255\<rparr>"

definition plain_dir_fs :: filesystem where
  "plain_dir_fs =
     \<lparr>fs_exists = (\<lambda>p. p = ''/out''),
      fs_isdir = (\<lambda>p. p = ''/out''),
      fs_writable = (\<lambda>p. p = ''/out''),
      fs_islink = (\<lambda>p. False),
      fs_files = Map.empty,
      fs_name_max = 255\<rparr>"

section \<open>retrieval.py: get\_context and hybrid\_retrieval\<close>

text \<open>
  A retrieved document is a Python object: its identity, its text chunk and its
  metadata. A retriever (the vector store's \<open>get_relevant_documents\<close>, or the BM25
  search) maps a query to a ranked list of documents.
\<close>

record doc =
  obj_id :: nat
  page_content :: string
  metadata :: "(string \<times> string) list"

text \<open>
  \<^verbatim>\<open>
  def get_context(query, retriever):
      docs = retriever.get_relevant_documents(query)
      if not docs:
          return "No relevant documents found."
      if len(query.split()) < 5 or "summarize" in query.lower():
          return "\n\n".join([doc.page_content for doc in docs])  # Retrieve full section
      return "\n\n".join([doc.page_content for doc in docs[:3]])  # Top 3 chunks
  \<close>
\<close>

definition is_broad :: "string \<Rightarrow> bool" where
  "is_broad query = (length (py_split query) < 5 \<or> contains ''summarize'' (py_lower query))"

definition get_context :: "string \<Rightarrow> (string \<Rightarrow> doc list) \<Rightarrow> string" where
  "get_context query retriever =
     (let docs = retriever query in
      if docs = [] then ''No relevant documents found.''
      else if is_broad query then join [nl, nl] (map page_content docs)
      else join [nl, nl] (map page_content (take 3 docs)))"

text \<open>
  \<^verbatim>\<open>
  def hybrid_retrieval(query, retriever, bm25_search):
      faiss_docs = retriever.get_relevant_documents(query)
      bm25_docs = bm25_search(query)  # Uses BM25 for keyword matching
      merged_docs = list(set(faiss_docs + bm25_docs))  # Deduplicate and merge
      return merged_docs
  \<close>
  \<open>set\<close> works with the \<open>__hash__\<close> and \<open>__eq__\<close> of the documents' class, which is not
  part of the sources and is a parameter here. A class that defines \<open>__eq__\<close> and no
  \<open>__hash__\<close> is unhashable (LangChain's pydantic \<open>Document\<close> is of this kind) and \<open>set\<close>
  raises TypeError on its first element; a class that defines neither compares and
  hashes by object identity; a class that defines both on its fields compares and
  hashes by value.
\<close>

datatype doc_class = Unhashable | IdentityHashed | ValueHashed

text \<open>
  When the set takes \<open>x\<close> for an element \<open>y\<close> it already holds: \<open>x is y or x == y\<close>, for
  elements of equal hash.
\<close>

definition same_element :: "doc_class \<Rightarrow> doc \<Rightarrow> doc \<Rightarrow> bool" where
  "same_element cls x y =
     (x = y \<or> (cls = ValueHashed \<and> page_content x = page_content y \<and> metadata x = metadata y))"

text \<open>
  \<open>set(xs)\<close> adds the elements in order; an element the set already holds is not added,
  and the one held stays. The elements held are kept here in the order of insertion.
\<close>

definition set_add :: "doc_class \<Rightarrow> doc \<Rightarrow> doc list \<Rightarrow> doc list" where
  "set_add cls x held = (if list_ex (same_element cls x) held then held else held @ [x])"

definition unhashable :: exn where
  "unhashable = TypeError (''unhashable type: '' @ [quote] @ ''Document'' @ [quote])"

definition py_set :: "doc_class \<Rightarrow> doc list \<Rightarrow> exn + doc list" where
  "py_set cls xs =
     (if cls = Unhashable \<and> xs \<noteq> [] then Inl unhashable
      else Inr (fold (set_add cls) xs []))"

text \<open>
  \<open>list(s)\<close> enumerates the set in the order of its hash table. The position of an
  element in the table comes from its hash value, which the source does not fix and
  which differs between runs (identity hashes are addresses, string hashes are salted
  per process); it is the parameter \<open>slot\<close>.
\<close>

definition py_list :: "(doc \<Rightarrow> nat) \<Rightarrow> doc list \<Rightarrow> doc list" where
  "py_list slot held = sort_key slot held"

definition hybrid_retrieval ::
  "doc_class \<Rightarrow> (doc \<Rightarrow> nat) \<Rightarrow> string \<Rightarrow> (string \<Rightarrow> doc list) \<Rightarrow> (string \<Rightarrow> doc list) \<Rightarrow>
   exn + doc list" where
  "hybrid_retrieval cls slot query retriever bm25_search =
     (let faiss_docs = retriever query;
          bm25_docs = bm25_search query
      in case py_set cls (faiss_docs @ bm25_docs) of
           Inl e \<Rightarrow> Inl e
         | Inr held \<Rightarrow> (let merged_docs = py_list slot held in Inr merged_docs))"

text \<open>The chunk a document object stands for: its text and its metadata.\<close>

definition chunk_value :: "doc \<Rightarrow> string \<times> (string \<times> string) list" where
  "chunk_value d = (page_content d, metadata d)"

text \<open>
  A note \<open>a.md\<close> and the two chunks cut from its text, two chunks of another note, the
  keyword index's own object for the first chunk, and the table positions of two runs.
\<close>

definition note_a_text :: string where
  "note_a_text = ''alpha beta''"

definition chunk_a :: doc where
  "chunk_a =
     \<lparr>obj_id = 1, page_content = take 5 note_a_text, metadata = [(''source'', ''a.md'')]\<rparr>"

definition chunk_b :: doc where
  "chunk_b =
     \<lparr>obj_id = 2, page_content = drop 6 note_a_text, metadata = [(''source'', ''a.md'')]\<rparr>"

definition chunk_c :: doc where
  "chunk_c = \<lparr>obj_id = 3, page_content = ''gamma'', metadata = [(''source'', ''b.md'')]\<rparr>"

definition chunk_d :: doc where
  "chunk_d = \<lparr>obj_id = 4, page_content = ''delta'', metadata = [(''source'', ''b.md'')]\<rparr>"

definition chunk_a_bm25 :: doc where
  "chunk_a_bm25 = chunk_a\<lparr>obj_id := 5\<rparr>"

definition run1_slot :: "doc \<Rightarrow> nat" where
  "run1_slot d = obj_id d"


text \<open>A chunk whose text is the message of the empty retrieval, and an empty chunk.\<close>

definition message_chunk :: doc where
  "message_chunk =
     \<lparr>obj_id = 6, page_content = ''No relevant documents found.'',
      metadata = [(''source'', ''log.md'')]\<rparr>"

definition empty_chunk :: doc where
  "empty_chunk = \<lparr>obj_id = 7, page_content = [], metadata = [(''source'', ''blank.md'')]\<rparr>"

section \<open>indexing.py: get\_modified\_files\<close>

text \<open>
  The directory tree below the knowledge base directory, as \<open>os.walk\<close> and
  \<open>os.path.getmtime\<close> see it: a file has a name and a modification time; a directory a
  name and its entries; a symbolic link that does not lead to a directory has a name and
  the modification time of its target, or none when the target is missing; a symbolic
  link to a directory has a name.
\<close>

datatype fs_entry =
    File string real
  | Dir string "fs_entry list"
  | Link string "real option"
  | DirLink string

text \<open>
  \<open>os.walk(top)\<close> yields, top-down, one triple per directory: its path, the names of its
  sub-directories and the other names (here with what \<open>os.path.getmtime\<close> answers for
  each: the modification time, or nothing where it raises). A link to a directory is
  listed among the sub-directories and, as \<open>followlinks\<close> is off, not descended into.
\<close>

fun dirnames :: "fs_entry list \<Rightarrow> string list" where
  "dirnames [] = []"
| "dirnames (Dir n es # rest) = n # dirnames rest"
| "dirnames (DirLink n # rest) = n # dirnames rest"
| "dirnames (File n m # rest) = dirnames rest"
| "dirnames (Link n m # rest) = dirnames rest"

fun filenames :: "fs_entry list \<Rightarrow> (string \<times> real option) list" where
  "filenames [] = []"
| "filenames (File n m # rest) = (n, Some m) # filenames rest"
| "filenames (Link n m # rest) = (n, m) # filenames rest"
| "filenames (Dir n es # rest) = filenames rest"
| "filenames (DirLink n # rest) = filenames rest"

fun walk :: "string \<Rightarrow> fs_entry list \<Rightarrow> (string \<times> string list \<times> (string \<times> real option) list) list"
  and walk_subdirs :: "string \<Rightarrow> fs_entry list \<Rightarrow> (string \<times> string list \<times> (string \<times> real option) list) list"
  where
  "walk top_dir entries = (top_dir, dirnames entries, filenames entries) # walk_subdirs top_dir entries"
| "walk_subdirs top_dir [] = []"
| "walk_subdirs top_dir (Dir n es # rest) = walk (path_join top_dir n) es @ walk_subdirs top_dir rest"
| "walk_subdirs top_dir (File n m # rest) = walk_subdirs top_dir rest"
| "walk_subdirs top_dir (Link n m # rest) = walk_subdirs top_dir rest"
| "walk_subdirs top_dir (DirLink n # rest) = walk_subdirs top_dir rest"

text \<open>
  \<^verbatim>\<open>
  def get_modified_files(knowledge_base_dir, last_index_time):
      modified_files = []
      for root, _, files in os.walk(knowledge_base_dir):
          for file in files:
              if file.endswith(".md"):
                  full_path = os.path.join(root, file)
                  if os.path.getmtime(full_path) > last_index_time:
                      modified_files.append(full_path)
      return modified_files
  \<close>
  \<open>os.path.getmtime\<close> raises FileNotFoundError for a link whose target is missing; nothing
  catches it, so the scan ends there with the exception.
\<close>

definition no_such_file :: "string \<Rightarrow> exn" where
  "no_such_file full_path =
     FileNotFoundError (''[Errno 2] No such file or directory: '' @ [quote] @ full_path @ [quote])"

fun scan_files ::
  "string \<Rightarrow> (string \<times> real option) list \<Rightarrow> real \<Rightarrow> string list \<Rightarrow> exn + string list" where
  "scan_files root_dir [] last_index_time modified_files = Inr modified_files"
| "scan_files root_dir ((file, mtime) # files) last_index_time modified_files =
     (if endswith file ''.md'' then
        (let full_path = path_join root_dir file in
         case mtime of
           None \<Rightarrow> Inl (no_such_file full_path)
         | Some m \<Rightarrow>
             if m > last_index_time
             then scan_files root_dir files last_index_time (modified_files @ [full_path])
             else scan_files root_dir files last_index_time modified_files)
      else scan_files root_dir files last_index_time modified_files)"

fun scan_dirs ::
  "(string \<times> string list \<times> (string \<times> real option) list) list \<Rightarrow> real \<Rightarrow> string list \<Rightarrow>
   exn + string list" where
  "scan_dirs [] last_index_time modified_files = Inr modified_files"
| "scan_dirs ((root_dir, dirs, files) # rest) last_index_time modified_files =
     (case scan_files root_dir files last_index_time modified_files of
        Inl e \<Rightarrow> Inl e
      | Inr modified_files \<Rightarrow> scan_dirs rest last_index_time modified_files)"

definition get_modified_files :: "string \<Rightarrow> fs_entry list \<Rightarrow> real \<Rightarrow> exn + string list" where
  "get_modified_files knowledge_base_dir entries last_index_time =
     scan_dirs (walk knowledge_base_dir entries) last_index_time []"

text \<open>
  Every file below a directory, by recursion on the tree: the directory that holds it,
  its name and its modification time (none for a link whose target is missing). What
  lies behind a link to a directory is not below the directory.
\<close>

fun files_under :: "string \<Rightarrow> fs_entry list \<Rightarrow> (string \<times> string \<times> real option) list" where
  "files_under d [] = []"
| "files_under d (File n m # rest) = (d, n, Some m) # files_under d rest"
| "files_under d (Link n m # rest) = (d, n, m) # files_under d rest"
| "files_under d (Dir n es # rest) = files_under (path_join d n) es @ files_under d rest"
| "files_under d (DirLink n # rest) = files_under d rest"

text \<open>The files that a walk lists, with the directory of each, in the order of the walk.\<close>

fun listed :: "(string \<times> string list \<times> (string \<times> real option) list) list \<Rightarrow>
    (string \<times> string \<times> real option) list" where
  "listed [] = []"
| "listed ((d, dirs, files) # rest) = map (\<lambda>(n, m). (d, n, m)) files @ listed rest"








section \<open>reasoning\_engine.py: EnhancedProcessor.process\_query\<close>

text \<open>
  The request parameters (\<open>top_p\<close> and \<open>repetition_penalty\<close> are optional keys), the
  three toggles, the two model names of the configuration and the payload of the model
  call.
\<close>

record parameters = params +
  top_p :: "real option"
  repetition_penalty :: "real option"

record active_modules =
  cot :: bool
  tot :: bool
  validation :: bool

record mixtral_config =
  base_model :: string
  enhanced_mode :: string

record payload =
  payload_model :: string
  payload_prompt :: string
  payload_temperature :: real
  payload_max_tokens :: int
  payload_top_p :: real
  payload_repetition_penalty :: real

text \<open>
  The three processors of \<open>self.modules\<close>; each maps a response and the context to a new
  response. Their code and the model call \<open>api_call\<close> are not part of the sources and are
  taken as given functions.
\<close>

record modules =
  cot_process :: "string \<Rightarrow> string \<Rightarrow> string"
  tot_explore :: "string \<Rightarrow> string \<Rightarrow> string"
  validation_validate :: "string \<Rightarrow> string \<Rightarrow> string"

text \<open>
  \<^verbatim>\<open>
  base_payload = {"model": base_model, "prompt": query, "temperature": ..., ...}
  if any(active_modules.values()):
      base_payload["model"] = self.config.mixtral_config['enhanced_mode']
  \<close>
\<close>

definition base_payload :: "mixtral_config \<Rightarrow> string \<Rightarrow> active_modules \<Rightarrow> parameters \<Rightarrow> payload" where
  "base_payload config query active parameters =
     (let p = \<lparr>payload_model = base_model config,
               payload_prompt = query,
               payload_temperature = temperature parameters,
               payload_max_tokens = max_length parameters,
               payload_top_p = (case top_p parameters of None \<Rightarrow> 0.9 | Some v \<Rightarrow> v),
               payload_repetition_penalty =
                 (case repetition_penalty parameters of None \<Rightarrow> 1.1 | Some v \<Rightarrow> v)\<rparr>
      in if cot active \<or> tot active \<or> validation active
         then p\<lparr>payload_model := enhanced_mode config\<rparr> else p)"

text \<open>
  \<^verbatim>\<open>
  response = await self.api_call(base_payload)
  if active_modules['cot']:
      response = self.modules['cot'].process(response, context)
  if active_modules['tot']:
      response = self.modules['tot'].explore(response, context)
  if active_modules['validation']:
      response = self.modules['validation'].validate(response, context)
  return response
  \<close>
\<close>

definition process_query ::
  "mixtral_config \<Rightarrow> (payload \<Rightarrow> string) \<Rightarrow> modules \<Rightarrow>
   string \<Rightarrow> string \<Rightarrow> active_modules \<Rightarrow> parameters \<Rightarrow> string" where
  "process_query config api_call ms query context active parameters =
     (let response = api_call (base_payload config query active parameters);
          response = (if cot active then cot_process ms response context else response);
          response = (if tot active then tot_explore ms response context else response);
          response = (if validation active then validation_validate ms response context
                      else response)
      in response)"

text \<open>
  The pipeline as the specification words it: a fixed ordered list of stages, each with
  its toggle; an enabled stage maps the previous draft and the context to a new draft, a
  disabled one passes the draft on.
\<close>

definition run_stage :: "bool \<times> (string \<Rightarrow> string \<Rightarrow> string) \<Rightarrow> string \<Rightarrow> string \<Rightarrow> string" where
  "run_stage stage context draft = (if fst stage then snd stage draft context else draft)"

definition pipeline_spec ::
  "(bool \<times> (string \<Rightarrow> string \<Rightarrow> string)) list \<Rightarrow> string \<Rightarrow> string \<Rightarrow> string" where
  "pipeline_spec stages context draft = fold (\<lambda>stage d. run_stage stage context d) stages draft"

definition stage_list :: "modules \<Rightarrow> active_modules \<Rightarrow> (bool \<times> (string \<Rightarrow> string \<Rightarrow> string)) list" where
  "stage_list ms active =
     [(cot active, cot_process ms), (tot active, tot_explore ms),
      (validation active, validation_validate ms)]"

text \<open>Processors that tag the draft, to tell the order of application.\<close>

definition tagging_modules :: modules where
  "tagging_modules =
     \<lparr>cot_process = (\<lambda>r c. r @ ''+cot''),
      tot_explore = (\<lambda>r c. r @ ''+tot''),
      validation_validate = (\<lambda>r c. r @ ''+val('' @ c @ '')'')\<rparr>"

section \<open>instructionUpdater.ts: updateInstructions\<close>

text \<open>
  The events the readline interface can receive: a completed input line, the end of the
  input stream, and SIGINT. The promise is pending until \<open>resolve\<close> is called; the
  executor has no \<open>reject\<close>.
\<close>

datatype rl_event = Line string | EndOfInput | Sigint

datatype promise = Pending | Resolved string | Rejected string

record rl_state =
  newInstructions :: string
  closed :: bool
  result :: promise
  console :: "string list"

definition console_log :: "string \<Rightarrow> rl_state \<Rightarrow> rl_state" where
  "console_log msg st = st\<lparr>console := console st @ [msg]\<rparr>"

text \<open>\<open>resolve(v)\<close> settles a pending promise and has no effect on a settled one.\<close>

definition resolve :: "string \<Rightarrow> rl_state \<Rightarrow> rl_state" where
  "resolve v st = (if result st = Pending then st\<lparr>result := Resolved v\<rparr> else st)"

text \<open>The three listeners, and \<open>rl.close()\<close>, which emits \<open>close\<close> once.\<close>

definition on_line :: "string \<Rightarrow> rl_state \<Rightarrow> rl_state" where
  "on_line line st = st\<lparr>newInstructions := newInstructions st @ line @ [nl]\<rparr>"

definition on_close :: "rl_state \<Rightarrow> rl_state" where
  "on_close st =
     (let st = console_log ''Readline interface closed.'' st
      in resolve (js_trim (newInstructions st)) st)"

definition rl_close :: "rl_state \<Rightarrow> rl_state" where
  "rl_close st = (if closed st then st else on_close (st\<lparr>closed := True\<rparr>))"

definition on_sigint :: "rl_state \<Rightarrow> rl_state" where
  "on_sigint st =
     (let st = console_log ''SIGINT received, closing readline interface.'' st
      in rl_close st)"

text \<open>A closed interface delivers no further event.\<close>

definition rl_emit :: "rl_event \<Rightarrow> rl_state \<Rightarrow> rl_state" where
  "rl_emit ev st =
     (if closed st then st
      else case ev of Line line \<Rightarrow> on_line line st
                    | EndOfInput \<Rightarrow> rl_close st
                    | Sigint \<Rightarrow> on_sigint st)"

definition initial_state :: rl_state where
  "initial_state =
     \<lparr>newInstructions = [], closed = False, result = Pending,
      console = [''Enter new instructions (press Ctrl+D on a new line when finished):'']\<rparr>"

definition updateInstructions :: "rl_event list \<Rightarrow> promise" where
  "updateInstructions events = result (fold rl_emit events initial_state)"

section \<open>Verified properties\<close>

subsection \<open>validate\_params\<close>

lemma validate_params_ok:
  "0 \<le> temperature p \<Longrightarrow> temperature p \<le> 1 \<Longrightarrow> 0 < max_length p \<Longrightarrow>
   validate_params p = Inr ()"
  by (simp add: validate_params_def)

lemma validate_params_only_temperature:
  "\<not> (0 \<le> temperature p \<and> temperature p \<le> 1) \<Longrightarrow> 0 < max_length p \<Longrightarrow>
   validate_params p = Inl (InvalidParametersError ''Temperature out of range (0-1)'')"
  by (simp add: validate_params_def)

lemma validate_params_only_length:
  "0 \<le> temperature p \<Longrightarrow> temperature p \<le> 1 \<Longrightarrow> max_length p \<le> 0 \<Longrightarrow>
   validate_params p = Inl (InvalidParametersError ''Invalid max length'')"
  by (simp add: validate_params_def)

text \<open>
  C3. A parameter record that violates both constraints (temperature outside [0,1] and a
  length that is not positive) fails with one InvalidParametersError whose message lists
  both violations, the temperature one first.
\<close>

theorem validate_params_enumerates_all:
  "\<not> (0 \<le> temperature p \<and> temperature p \<le> 1) \<Longrightarrow> max_length p \<le> 0 \<Longrightarrow>
   validate_params p =
     Inl (InvalidParametersError ''Temperature out of range (0-1), Invalid max length'')"
  by (simp add: validate_params_def)

theorem validate_params_enumerates_all_witness:
  "\<not> (0 \<le> (1.5::real) \<and> (1.5::real) \<le> 1) \<and> (0::int) \<le> 0 \<and>
   validate_params \<lparr>temperature = 1.5, max_length = 0\<rparr> =
     Inl (InvalidParametersError ''Temperature out of range (0-1), Invalid max length'')"
  using validate_params_enumerates_all [of "\<lparr>temperature = 1.5, max_length = 0\<rparr>"]
  by simp

subsection \<open>Paths and file names\<close>

lemma basename_append:
  assumes "CHR ''/'' \<notin> set name" and "pre = [] \<or> last pre = CHR ''/''"
  shows "basename (pre @ name) = name"
proof -
  have "takeWhile (\<lambda>c. c \<noteq> CHR ''/'') (rev pre) = []"
    using assms(2) by (cases pre rule: rev_cases) auto
  moreover have "\<forall>c\<in>set (rev name). c \<noteq> CHR ''/''"
    using assms(1) by auto
  ultimately show ?thesis
    by (simp add: basename_def takeWhile_append)
qed

lemma endswith_slash: "endswith a ''/'' \<longleftrightarrow> a \<noteq> [] \<and> last a = CHR ''/''"
proof (cases a rule: rev_cases)
  case Nil
  then show ?thesis by (simp add: endswith_def)
next
  case (snoc ys y)
  then show ?thesis by (simp add: endswith_def)
qed

lemma startswith_slash: "startswith b ''/'' \<longleftrightarrow> b \<noteq> [] \<and> hd b = CHR ''/''"
  by (cases b) (auto simp: startswith_def)

lemma path_join_decomp:
  assumes "b \<noteq> []" "hd b \<noteq> CHR ''/''"
  shows "\<exists>pre. path_join a b = pre @ b \<and> (pre = [] \<or> last pre = CHR ''/'')"
proof -
  have nb: "\<not> startswith b ''/''" using assms by (simp add: startswith_slash)
  show ?thesis
  proof (cases "a = [] \<or> endswith a ''/''")
    case True
    then have "path_join a b = a @ b" using nb by (simp add: path_join_def)
    moreover have "a = [] \<or> last a = CHR ''/''" using True by (auto simp: endswith_slash)
    ultimately show ?thesis by blast
  next
    case False
    then have "path_join a b = (a @ ''/'') @ b" using nb by (simp add: path_join_def)
    moreover have "last (a @ ''/'') = CHR ''/''" by simp
    ultimately show ?thesis by blast
  qed
qed

lemma filename_char_not_slash: "filename_char c \<Longrightarrow> c \<noteq> CHR ''/''"
  by (auto simp: filename_char_def is_word_char_def)

lemma filename_char_not_dot: "filename_char c \<Longrightarrow> c \<noteq> CHR ''.''"
  by (auto simp: filename_char_def is_word_char_def)

lemma safe_filename_chars: "c \<in> set (safe_filename f) \<Longrightarrow> filename_char c"
  by (auto simp: safe_filename_def dest: in_set_takeD)


lemma md_name_no_slash: "CHR ''/'' \<notin> set (safe_filename f @ ''.md'')"
  using safe_filename_chars filename_char_not_slash by auto

lemma md_name_hd: "hd (safe_filename f @ ''.md'') \<noteq> CHR ''/''"
  using md_name_no_slash [of f] by (cases "safe_filename f") auto

lemma basename_written:
  "basename (path_join d (safe_filename f @ ''.md'')) = safe_filename f @ ''.md''"
proof -
  obtain pre where "path_join d (safe_filename f @ ''.md'') = pre @ (safe_filename f @ ''.md'')"
    and "pre = [] \<or> last pre = CHR ''/''"
    using path_join_decomp [of "safe_filename f @ ''.md''" d] md_name_hd [of f] by auto
  then show ?thesis
    using basename_append [OF md_name_no_slash] by simp
qed









subsection \<open>validate\_directory and write\_markdown\<close>

lemma validate_directory_ok_iff:
  "validate_directory fs path rw = Inr ok \<longleftrightarrow>
     ok \<and> fs_exists fs path \<and> fs_isdir fs path \<and> (rw \<longrightarrow> fs_writable fs path) \<and>
     \<not> fs_islink fs path"
  by (auto simp: validate_directory_def validate_directory_checks_def)

text \<open>
  A symbolic link does not fail with SecurityError in \<open>validate_directory\<close>: a link to a
  writable directory fails with a ValidationError (whose cause is the SecurityError),
  and a link whose target is missing fails with a ValidationError whose cause is a
  FileNotFoundError. The same link named with a trailing slash, for which
  \<open>os.path.islink\<close> answers false, is accepted.
\<close>

theorem validate_directory_symlink_counterexample:
  "fs_islink linked_dir_fs ''/kb'' \<and>
   \<not> fails_with_SecurityError (validate_directory linked_dir_fs ''/kb'' True) \<and>
   validate_directory linked_dir_fs ''/kb'' True =
     Inl (ValidationError ''Symlinks not allowed for security reasons''
           (SecurityError ''Symlinks not allowed for security reasons'')) \<and>
   fs_islink dangling_link_fs ''/kb'' \<and>
   \<not> fails_with_SecurityError (validate_directory dangling_link_fs ''/kb'' False) \<and>
   validate_directory dangling_link_fs ''/kb'' False =
     Inl (ValidationError ''Path does not exist: /kb''
           (FileNotFoundError ''Path does not exist: /kb'')) \<and>
   validate_directory linked_dir_fs ''/kb/'' True = Inr True"
  by (simp add: linked_dir_fs_def dangling_link_fs_def validate_directory_def
      validate_directory_checks_def)

text \<open>
  C2 (amended). For every path for which \<open>os.path.islink\<close> answers true and for both
  values of \<open>require_write\<close>, \<open>validate_directory\<close> never succeeds: it fails with a
  ValidationError whose message and cause are those of the first failed check, in the
  order of the source. The cause is the FileNotFoundError "Path does not exist: path"
  when the link's target is missing, the NotADirectoryError "Not a directory: path" when
  it is not a directory, the PermissionError "Write access denied: path" when
  \<open>require_write\<close> is set and the target is not writable, and the SecurityError "Symlinks
  not allowed for security reasons" otherwise.
\<close>

theorem validate_directory_symlink_rejected:
  assumes "fs_islink fs path"
  shows "validate_directory fs path require_write =
           (if \<not> fs_exists fs path then
              Inl (ValidationError (''Path does not exist: '' @ path)
                    (FileNotFoundError (''Path does not exist: '' @ path)))
            else if \<not> fs_isdir fs path then
              Inl (ValidationError (''Not a directory: '' @ path)
                    (NotADirectoryError (''Not a directory: '' @ path)))
            else if require_write \<and> \<not> fs_writable fs path then
              Inl (ValidationError (''Write access denied: '' @ path)
                    (PermissionError (''Write access denied: '' @ path)))
            else
              Inl (ValidationError ''Symlinks not allowed for security reasons''
                    (SecurityError ''Symlinks not allowed for security reasons''))) \<and>
         (\<forall>ok. validate_directory fs path require_write \<noteq> Inr ok)"
proof -
  have "\<forall>ok. validate_directory fs path require_write \<noteq> Inr ok"
    using assms by (simp add: validate_directory_ok_iff)
  moreover have "validate_directory fs path require_write =
           (if \<not> fs_exists fs path then
              Inl (ValidationError (''Path does not exist: '' @ path)
                    (FileNotFoundError (''Path does not exist: '' @ path)))
            else if \<not> fs_isdir fs path then
              Inl (ValidationError (''Not a directory: '' @ path)
                    (NotADirectoryError (''Not a directory: '' @ path)))
            else if require_write \<and> \<not> fs_writable fs path then
              Inl (ValidationError (''Write access denied: '' @ path)
                    (PermissionError (''Write access denied: '' @ path)))
            else
              Inl (ValidationError ''Symlinks not allowed for security reasons''
                    (SecurityError ''Symlinks not allowed for security reasons'')))"
    using assms by (simp add: validate_directory_def validate_directory_checks_def)
  ultimately show ?thesis by blast
qed

theorem validate_directory_symlink_rejected_witness:
  "fs_islink linked_dir_fs ''/kb'' \<and>
   validate_directory linked_dir_fs ''/kb'' False =
     Inl (ValidationError ''Symlinks not allowed for security reasons''
           (SecurityError ''Symlinks not allowed for security reasons'')) \<and>
   fs_islink dangling_link_fs ''/kb'' \<and>
   validate_directory dangling_link_fs ''/kb'' True =
     Inl (ValidationError ''Path does not exist: /kb''
           (FileNotFoundError ''Path does not exist: /kb''))"
proof -
  have l: "fs_islink linked_dir_fs ''/kb''" by (simp add: linked_dir_fs_def)
  have d: "fs_islink dangling_link_fs ''/kb''" by (simp add: dangling_link_fs_def)
  show ?thesis
    using l d validate_directory_symlink_rejected [OF l, of False, THEN conjunct1]
      validate_directory_symlink_rejected [OF d, of True, THEN conjunct1]
    by (simp add: linked_dir_fs_def dangling_link_fs_def)
qed

lemma utf8_length_append: "utf8_length (xs @ ys) = utf8_length xs + utf8_length ys"
  by (simp add: utf8_length_def)

lemma utf8_length_ascii:
  "(of_char c :: nat) < 128 \<Longrightarrow> utf8_length (replicate n c) = n"
  by (induction n) (auto simp: utf8_length_def)

lemma safe_filename_replicate:
  "filename_char c \<Longrightarrow> safe_filename (replicate n c) = replicate (min 255 n) c"
  by (simp add: safe_filename_def min.commute)



lemma plain_dir_valid: "validate_directory plain_dir_fs ''/out'' True = Inr True"
  by (simp add: plain_dir_fs_def validate_directory_def validate_directory_checks_def)


text \<open>
  A stem of 255 characters passes the cut unchanged; with the extension the name has 258
  bytes, \<open>open\<close> raises and nothing is written.
\<close>

lemma write_markdown_long_name:
  "write_markdown plain_dir_fs content ''/out'' (replicate 255 CHR ''a'') =
     Inl (name_too_long (''/out/'' @ replicate 255 CHR ''a'' @ ''.md''))"
proof -
  have fc: "filename_char CHR ''a''" by (simp add: filename_char_def is_word_char_def)
  have s: "safe_filename (replicate 255 CHR ''a'') = replicate 255 CHR ''a''"
    using safe_filename_replicate [OF fc, of 255] by simp
  have u: "utf8_length (replicate 255 CHR ''a'' @ ''.md'') = 258"
    by (simp add: utf8_length_append utf8_length_ascii) (simp add: utf8_length_def)
  have j: "path_join ''/out'' (replicate 255 CHR ''a'' @ ''.md'') =
      ''/out/'' @ replicate 255 CHR ''a'' @ ''.md''"
    by (simp add: path_join_def startswith_def endswith_def)
  have b: "basename (''/out/'' @ replicate 255 CHR ''a'' @ ''.md'') =
      replicate 255 CHR ''a'' @ ''.md''"
    using basename_written [of "''/out''" "replicate 255 CHR ''a''"] s j by simp
  have m: "fs_name_max plain_dir_fs = 255" by (simp add: plain_dir_fs_def)
  show ?thesis
    unfolding write_markdown_def plain_dir_valid s Let_def j b u m by simp
qed

subsection \<open>Strings: substring test and whitespace splitting\<close>

lemma startswith_iff: "startswith s p \<longleftrightarrow> (\<exists>suf. s = p @ suf)"
proof
  assume "startswith s p"
  then have "s = p @ drop (length p) s"
    by (metis append_take_drop_id startswith_def)
  then show "\<exists>suf. s = p @ suf" ..
next
  assume "\<exists>suf. s = p @ suf"
  then show "startswith s p" by (auto simp: startswith_def)
qed

lemma contains_iff: "contains sub s \<longleftrightarrow> (\<exists>pre suf. s = pre @ sub @ suf)"
proof (induction s)
  case Nil
  then show ?case by auto
next
  case (Cons c cs)
  show ?case
  proof
    assume "contains sub (c # cs)"
    then consider "startswith (c # cs) sub" | "contains sub cs" by auto
    then show "\<exists>pre suf. c # cs = pre @ sub @ suf"
    proof cases
      case 1
      then obtain suf where "c # cs = sub @ suf" by (auto simp: startswith_iff)
      then have "c # cs = [] @ sub @ suf" by simp
      then show ?thesis by blast
    next
      case 2
      then obtain pre suf where "cs = pre @ sub @ suf" using Cons.IH by blast
      then have "c # cs = (c # pre) @ sub @ suf" by simp
      then show ?thesis by blast
    qed
  next
    assume "\<exists>pre suf. c # cs = pre @ sub @ suf"
    then obtain pre suf where e: "c # cs = pre @ sub @ suf" by blast
    show "contains sub (c # cs)"
    proof (cases pre)
      case Nil
      with e have "startswith (c # cs) sub" by (auto simp: startswith_iff)
      then show ?thesis by simp
    next
      case (Cons p ps)
      with e have "cs = ps @ sub @ suf" by simp
      then have "contains sub cs" using Cons.IH by blast
      then show ?thesis by simp
    qed
  qed
qed

lemma split_acc_tokens:
  "w \<in> set (split_acc cur s) \<Longrightarrow> \<forall>c\<in>set cur. \<not> py_isspace c \<Longrightarrow>
   w \<noteq> [] \<and> (\<forall>c\<in>set w. \<not> py_isspace c)"
proof (induction s arbitrary: cur)
  case Nil
  then show ?case by (auto split: if_splits)
next
  case (Cons c cs)
  show ?case
  proof (cases "py_isspace c")
    case True
    then have "w = cur \<and> cur \<noteq> [] \<or> w \<in> set (split_acc [] cs)"
      using Cons.prems(1) by (auto split: if_splits)
    then show ?thesis
      using Cons.IH [of "[]"] Cons.prems(2) by auto
  next
    case False
    then have "w \<in> set (split_acc (cur @ [c]) cs)" using Cons.prems(1) by simp
    moreover have "\<forall>x\<in>set (cur @ [c]). \<not> py_isspace x" using False Cons.prems(2) by auto
    ultimately show ?thesis using Cons.IH by blast
  qed
qed

lemma py_split_tokens:
  "w \<in> set (py_split s) \<Longrightarrow> w \<noteq> [] \<and> (\<forall>c\<in>set w. \<not> py_isspace c)"
  unfolding py_split_def using split_acc_tokens [of w "[]" s] by simp

lemma split_acc_concat:
  "concat (split_acc cur s) = cur @ filter (\<lambda>c. \<not> py_isspace c) s"
  by (induction s arbitrary: cur) auto

lemma py_split_concat: "concat (py_split s) = filter (\<lambda>c. \<not> py_isspace c) s"
  by (simp add: py_split_def split_acc_concat)

subsection \<open>get\_context\<close>

lemma is_broad_notes: "is_broad ''notes''"
  by (simp add: is_broad_def py_split_def py_isspace_def)

lemma get_context_found:
  "retriever query \<noteq> [] \<Longrightarrow>
   get_context query retriever =
     join [nl, nl]
       (map page_content (if is_broad query then retriever query else take 3 (retriever query)))"
  by (simp add: get_context_def)

text \<open>
  The result of an empty retrieval is not distinguishable from every context: a
  retrieval that finds the chunk whose text is the message returns the same string as an
  empty retrieval, and a retrieval that finds an empty chunk returns the empty string.
\<close>

theorem get_context_message_counterexample:
  "(\<lambda>q. [message_chunk]) ''notes'' \<noteq> [] \<and>
   get_context ''notes'' (\<lambda>q. [message_chunk]) = get_context ''notes'' (\<lambda>q. []) \<and>
   get_context ''notes'' (\<lambda>q. [empty_chunk]) = []"
  by (simp add: get_context_def is_broad_notes message_chunk_def empty_chunk_def)

text \<open>
  C4 (amended). For every query for which the retriever finds no document (in particular
  every query against an empty index), \<open>get_context\<close> returns the explicit message "No
  relevant documents found.", never the empty string. When the retriever finds documents
  the result is the text of the selected chunks, so the message is returned exactly
  when nothing was retrieved or the retrieved text is itself that message: the result
  of an empty retrieval differs from every context whose text is not the message.
\<close>

theorem get_context_no_docs:
  "(retriever query = [] \<longrightarrow>
      get_context query retriever = ''No relevant documents found.'' \<and>
      get_context query retriever \<noteq> []) \<and>
   (retriever query \<noteq> [] \<longrightarrow>
      get_context query retriever =
        join [nl, nl]
          (map page_content
             (if is_broad query then retriever query else take 3 (retriever query)))) \<and>
   (get_context query retriever = ''No relevant documents found.'' \<longleftrightarrow>
      retriever query = [] \<or>
      join [nl, nl]
        (map page_content
           (if is_broad query then retriever query else take 3 (retriever query))) =
        ''No relevant documents found.'')"
proof (cases "retriever query = []")
  case True
  then show ?thesis by (simp add: get_context_def)
next
  case False
  then show ?thesis using get_context_found [of retriever query] by simp
qed

theorem get_context_no_docs_witness:
  "(\<lambda>q. []) ''what is in my notes'' = ([] :: doc list) \<and>
   get_context ''what is in my notes'' (\<lambda>q. []) = ''No relevant documents found.'' \<and>
   (\<lambda>q. [chunk_a]) ''notes'' \<noteq> [] \<and>
   get_context ''notes'' (\<lambda>q. [chunk_a]) \<noteq> ''No relevant documents found.''"
  using get_context_no_docs [of "\<lambda>q. []" "''what is in my notes''"]
    get_context_no_docs [of "\<lambda>q. [chunk_a]" "''notes''"]
  by (simp add: chunk_a_def note_a_text_def)

text \<open>
  C5. A broad query is not answered with the full text of the parent document: for the
  broad query "notes", with the retriever returning the first chunk of the note \<open>a.md\<close>,
  the result of \<open>get_context\<close> is that chunk's text and does not contain the text of the
  note.
\<close>

theorem get_context_broad_fragment:
  "is_broad ''notes'' \<and>
   page_content chunk_a = take 5 note_a_text \<and>
   get_context ''notes'' (\<lambda>q. [chunk_a]) = ''alpha'' \<and>
   \<not> contains note_a_text (get_context ''notes'' (\<lambda>q. [chunk_a]))"
  by (simp add: get_context_def is_broad_notes chunk_a_def note_a_text_def startswith_def)

text \<open>
  What \<open>get_context\<close> does return: the query is broad exactly when it splits into fewer
  than 5 tokens or its lower-cased text contains "summarize"; a broad query gets the
  text of every retrieved chunk, any other query that of the first 3.
\<close>

lemma get_context_granularity:
  assumes "retriever query \<noteq> []"
  shows "(is_broad query \<longleftrightarrow>
            length (py_split query) < 5 \<or> (\<exists>pre suf. py_lower query = pre @ ''summarize'' @ suf)) \<and>
         (is_broad query \<longrightarrow>
            get_context query retriever = join [nl, nl] (map page_content (retriever query))) \<and>
         (\<not> is_broad query \<longrightarrow>
            get_context query retriever =
              join [nl, nl] (map page_content (take 3 (retriever query))))"
  using assms by (simp add: get_context_def is_broad_def contains_iff)

lemma not_broad_example: "\<not> is_broad ''what did we decide about the budget''"
  by (simp add: is_broad_def py_split_def py_isspace_def py_lower_def py_lower_char_def
      startswith_def)

lemma get_context_granularity_example:
  "get_context ''what did we decide about the budget'' (\<lambda>q. [chunk_a, chunk_b, chunk_c, chunk_d]) =
     ''alpha'' @ [nl, nl] @ ''beta'' @ [nl, nl] @ ''gamma'' \<and>
   get_context ''notes'' (\<lambda>q. [chunk_a, chunk_b, chunk_c, chunk_d]) =
     ''alpha'' @ [nl, nl] @ ''beta'' @ [nl, nl] @ ''gamma'' @ [nl, nl] @ ''delta''"
  using get_context_granularity [of "\<lambda>q. [chunk_a, chunk_b, chunk_c, chunk_d]"
      "''what did we decide about the budget''"]
    get_context_granularity [of "\<lambda>q. [chunk_a, chunk_b, chunk_c, chunk_d]" "''notes''"]
    not_broad_example is_broad_notes
  by (simp add: chunk_a_def chunk_b_def chunk_c_def chunk_d_def note_a_text_def)

subsection \<open>hybrid\_retrieval\<close>

lemma same_element_refl: "same_element cls x x"
  by (simp add: same_element_def)

lemma same_element_sym: "same_element cls x y \<Longrightarrow> same_element cls y x"
  by (auto simp: same_element_def)

lemma same_element_trans:
  "same_element cls x y \<Longrightarrow> same_element cls y z \<Longrightarrow> same_element cls x z"
  by (auto simp: same_element_def)

lemma same_element_value:
  "same_element ValueHashed x y \<longleftrightarrow> chunk_value x = chunk_value y"
  by (auto simp: same_element_def chunk_value_def)

lemma same_element_identity: "same_element IdentityHashed x y \<longleftrightarrow> x = y"
  by (simp add: same_element_def)


lemma fold_set_add_subset:
  "set (fold (set_add cls) xs held) \<subseteq> set held \<union> set xs"
proof (induction xs arbitrary: held)
  case Nil
  then show ?case by simp
next
  case (Cons x xs)
  have "set (set_add cls x held) \<subseteq> set held \<union> {x}"
    by (auto simp: set_add_def)
  then show ?case using Cons.IH [of "set_add cls x held"] by auto
qed

lemma fold_set_add_keeps: "set held \<subseteq> set (fold (set_add cls) xs held)"
proof (induction xs arbitrary: held)
  case Nil
  then show ?case by simp
next
  case (Cons x xs)
  have "set held \<subseteq> set (set_add cls x held)" by (auto simp: set_add_def)
  then show ?case using Cons.IH [of "set_add cls x held"] by auto
qed

text \<open>Every inserted element is held, or an element the set takes for it is.\<close>

lemma fold_set_add_represents:
  "x \<in> set xs \<Longrightarrow> \<exists>y\<in>set (fold (set_add cls) xs held). same_element cls x y"
proof (induction xs arbitrary: held)
  case Nil
  then show ?case by simp
next
  case (Cons a xs)
  show ?case
  proof (cases "x = a")
    case True
    have "\<exists>y\<in>set (set_add cls a held). same_element cls a y"
      using same_element_refl [of cls a] by (auto simp: set_add_def list_ex_iff)
    then show ?thesis
      using True fold_set_add_keeps [of "set_add cls a held" cls xs] by auto
  next
    case False
    then have "x \<in> set xs" using Cons.prems by simp
    then show ?thesis using Cons.IH by simp
  qed
qed

text \<open>No two elements held are taken for each other.\<close>

lemma fold_set_add_apart:
  assumes "\<forall>i<length held. \<forall>j<length held. i \<noteq> j \<longrightarrow> \<not> same_element cls (held ! i) (held ! j)"
  shows "\<forall>i<length (fold (set_add cls) xs held). \<forall>j<length (fold (set_add cls) xs held).
           i \<noteq> j \<longrightarrow>
           \<not> same_element cls (fold (set_add cls) xs held ! i) (fold (set_add cls) xs held ! j)"
  using assms
proof (induction xs arbitrary: held)
  case Nil
  then show ?case by simp
next
  case (Cons x xs)
  have "\<forall>i<length (set_add cls x held). \<forall>j<length (set_add cls x held).
          i \<noteq> j \<longrightarrow> \<not> same_element cls (set_add cls x held ! i) (set_add cls x held ! j)"
  proof (cases "list_ex (same_element cls x) held")
    case True
    then show ?thesis using Cons.prems by (simp add: set_add_def)
  next
    case False
    then have nx: "\<forall>k<length held. \<not> same_element cls x (held ! k)"
      by (auto simp: list_ex_iff)
    then have nx': "\<forall>k<length held. \<not> same_element cls (held ! k) x"
      using same_element_sym by blast
    show ?thesis
    proof (intro allI impI)
      fix i j
      assume i: "i < length (set_add cls x held)" and j: "j < length (set_add cls x held)"
        and ij: "i \<noteq> j"
      have len: "length (set_add cls x held) = Suc (length held)"
        using False by (simp add: set_add_def)
      have sa: "set_add cls x held = held @ [x]" using False by (simp add: set_add_def)
      consider "i < length held" "j < length held" | "i = length held" "j < length held"
        | "i < length held" "j = length held"
        using i j ij len by linarith
      then show "\<not> same_element cls (set_add cls x held ! i) (set_add cls x held ! j)"
      proof cases
        case 1
        then show ?thesis using Cons.prems ij by (simp add: sa nth_append)
      next
        case 2
        then show ?thesis using nx by (simp add: sa nth_append)
      next
        case 3
        then show ?thesis using nx' by (simp add: sa nth_append)
      qed
    qed
  qed
  then show ?case using Cons.IH [of "set_add cls x held"] by simp
qed

lemma py_list_mset: "mset (py_list slot held) = mset held"
  by (simp add: py_list_def)

lemma py_list_set: "set (py_list slot held) = set held"
  by (simp add: py_list_def)


lemma hybrid_retrieval_cases:
  "hybrid_retrieval cls slot query retriever bm25_search =
     (if cls = Unhashable \<and> retriever query @ bm25_search query \<noteq> [] then Inl unhashable
      else Inr (py_list slot (fold (set_add cls) (retriever query @ bm25_search query) [])))"
  by (simp add: hybrid_retrieval_def py_set_def Let_def)

text \<open>
  With documents that hash by value the merge does what its comment says: the result
  holds no chunk twice and holds exactly the chunks of the two lists.
\<close>

lemma hybrid_retrieval_value_hashed:
  "\<exists>merged. hybrid_retrieval ValueHashed slot query retriever bm25_search = Inr merged \<and>
     distinct (map chunk_value merged) \<and>
     chunk_value ` set merged = chunk_value ` (set (retriever query) \<union> set (bm25_search query))"
proof -
  let ?xs = "retriever query @ bm25_search query"
  let ?held = "fold (set_add ValueHashed) ?xs []"
  let ?m = "py_list slot ?held"
  have r: "hybrid_retrieval ValueHashed slot query retriever bm25_search = Inr ?m"
    by (simp add: hybrid_retrieval_cases)
  have apart: "\<forall>i<length ?held. \<forall>j<length ?held. i \<noteq> j \<longrightarrow>
      chunk_value (?held ! i) \<noteq> chunk_value (?held ! j)"
    using fold_set_add_apart [of "[]" ValueHashed ?xs] by (simp add: same_element_value)
  have dh: "distinct (map chunk_value ?held)"
    unfolding distinct_conv_nth using apart by simp
  have dm: "mset (map chunk_value ?m) = mset (map chunk_value ?held)"
    by (simp add: py_list_mset)
  have d: "distinct (map chunk_value ?m)"
    using dh dm by (metis mset_eq_imp_distinct_iff)
  have sub: "chunk_value ` set ?held \<subseteq> chunk_value ` set ?xs"
    using fold_set_add_subset [of ValueHashed ?xs "[]"] by auto
  have sup: "chunk_value ` set ?xs \<subseteq> chunk_value ` set ?held"
  proof
    fix v assume "v \<in> chunk_value ` set ?xs"
    then obtain x where x: "x \<in> set ?xs" "v = chunk_value x" by blast
    then obtain y where "y \<in> set ?held" "same_element ValueHashed x y"
      using fold_set_add_represents [of x ?xs ValueHashed "[]"] by blast
    then show "v \<in> chunk_value ` set ?held"
      using x(2) by (auto simp: same_element_value)
  qed
  have "chunk_value ` set ?m = chunk_value ` (set (retriever query) \<union> set (bm25_search query))"
    using sub sup by (simp add: py_list_set)
  with r d show ?thesis by blast
qed

text \<open>
  C1. The merge does not de-duplicate the documents a retriever returns. On the vector
  store's and the keyword index's own objects for one chunk, \<open>hybrid_retrieval\<close> raises
  TypeError when the documents' class is unhashable, and returns the chunk twice when
  the class hashes by identity.
\<close>

theorem hybrid_retrieval_keeps_duplicates:
  "hybrid_retrieval Unhashable run1_slot ''alpha'' (\<lambda>q. [chunk_a]) (\<lambda>q. [chunk_a_bm25]) =
     Inl unhashable \<and>
   hybrid_retrieval IdentityHashed run1_slot ''alpha'' (\<lambda>q. [chunk_a]) (\<lambda>q. [chunk_a_bm25]) =
     Inr [chunk_a, chunk_a_bm25] \<and>
   chunk_value chunk_a = chunk_value chunk_a_bm25"
  by (simp add: hybrid_retrieval_cases set_add_def same_element_def py_list_def run1_slot_def
      chunk_a_bm25_def chunk_a_def chunk_value_def)




subsection \<open>get\_modified\_files\<close>


lemma scan_files_fail:
  "scan_files d files since acc = Inl e \<Longrightarrow> \<exists>p. e = no_such_file p"
proof (induction files arbitrary: acc)
  case Nil
  then show ?case by simp
next
  case (Cons f files)
  obtain n m where f: "f = (n, m)" by (cases f)
  show ?case
    using Cons.prems Cons.IH
    by (cases m) (auto simp: f Let_def split: if_splits)
qed

lemma scan_files_dangling:
  assumes "(n, None) \<in> set files" "endswith n ''.md''"
  shows "\<exists>p. scan_files d files since acc = Inl (no_such_file p)"
  using assms
proof (induction files arbitrary: acc)
  case Nil
  then show ?case by simp
next
  case (Cons f files)
  obtain n' m' where f: "f = (n', m')" by (cases f)
  show ?case
  proof (cases "f = (n, None)")
    case True
    then have "scan_files d (f # files) since acc = Inl (no_such_file (path_join d n))"
      using Cons.prems(2) by (simp add: Let_def)
    then show ?thesis by blast
  next
    case False
    then have "(n, None) \<in> set files" using Cons.prems(1) by simp
    then have "\<exists>p. scan_files d files since acc' = Inl (no_such_file p)" for acc'
      using Cons.IH Cons.prems(2) by simp
    then show ?thesis
      by (cases m') (auto simp: f Let_def)
  qed
qed

lemma listed_append: "listed (xs @ ys) = listed xs @ listed ys"
  by (induction xs rule: listed.induct) auto


lemma scan_dirs_dangling:
  assumes "(d, n, None) \<in> set (listed ws)" "endswith n ''.md''"
  shows "\<exists>p. scan_dirs ws since acc = Inl (no_such_file p)"
  using assms
proof (induction ws arbitrary: acc)
  case Nil
  then show ?case by simp
next
  case (Cons w ws)
  obtain d' dirs files where w: "w = (d', dirs, files)" by (cases w)
  show ?case
  proof (cases "scan_files d' files since acc")
    case (Inl e)
    then obtain p where "e = no_such_file p" using scan_files_fail by blast
    with Inl show ?thesis by (auto simp: w)
  next
    case (Inr acc')
    have "\<not> (d' = d \<and> (n, None) \<in> set files)"
    proof
      assume "d' = d \<and> (n, None) \<in> set files"
      then show False
        using scan_files_dangling [of n files d' since acc] Cons.prems(2) Inr by auto
    qed
    then have "(d, n, None) \<in> set (listed ws)" using Cons.prems(1) w by auto
    then show ?thesis
      using Cons.IH [of acc'] Cons.prems(2) Inr by (simp add: w)
  qed
qed

lemma listed_walk_mset: "mset (listed (walk d es)) = mset (files_under d es)"
proof (induction d es rule: files_under.induct)
  case (1 d)
  then show ?case by simp
next
  case (2 d n m rest)
  then show ?case by simp
next
  case (3 d n m rest)
  then show ?case by simp
next
  case (4 d n es rest)
  let ?A = "mset (map (\<lambda>(n, m). (d, n, m)) (filenames rest))"
  let ?B = "mset (listed (walk (path_join d n) es))"
  let ?D = "mset (listed (walk_subdirs d rest))"
  have "mset (listed (walk d (Dir n es # rest))) = ?B + (?A + ?D)"
    by (simp add: listed_append)
  also have "?A + ?D = mset (listed (walk d rest))"
    by simp
  also have "?B + mset (listed (walk d rest)) = mset (files_under d (Dir n es # rest))"
    unfolding "4.IH" by simp
  finally show ?case .
next
  case (5 d n rest)
  then show ?case by simp
qed

lemma listed_walk_set: "set (listed (walk d es)) = set (files_under d es)"
  using listed_walk_mset [of d es] by (rule mset_eq_setD)


lemma get_modified_files_dangling:
  assumes "(d, n, None) \<in> set (files_under kb es)" "endswith n ''.md''"
  shows "\<exists>p. get_modified_files kb es since = Inl (no_such_file p)"
proof -
  have "(d, n, None) \<in> set (listed (walk kb es))"
    using assms(1) by (simp only: listed_walk_set)
  then show ?thesis
    unfolding get_modified_files_def using scan_dirs_dangling assms(2) by blast
qed






subsection \<open>process\_query\<close>

lemma process_query_refines:
  "process_query config api_call ms query context active parameters =
     pipeline_spec (stage_list ms active) context
       (api_call (base_payload config query active parameters))"
  by (simp add: process_query_def pipeline_spec_def stage_list_def run_stage_def Let_def)

lemma pipeline_spec_Nil: "pipeline_spec [] context draft = draft"
  by (simp add: pipeline_spec_def)

lemma pipeline_spec_Cons:
  "pipeline_spec (stage # stages) context draft =
     pipeline_spec stages context (run_stage stage context draft)"
  by (simp add: pipeline_spec_def)

lemma pipeline_spec_all_disabled:
  "\<forall>stage\<in>set stages. \<not> fst stage \<Longrightarrow> pipeline_spec stages context draft = draft"
  by (induction stages) (auto simp: pipeline_spec_Nil pipeline_spec_Cons run_stage_def)

lemma base_payload_model:
  "payload_model (base_payload config query active parameters) =
     (if cot active \<or> tot active \<or> validation active then enhanced_mode config
      else base_model config)"
  by (simp add: base_payload_def Let_def)

text \<open>
  C8. For every draft returned by the model call, every context and every setting of the
  three toggles, \<open>process_query\<close> returns what the ordered pipeline chain-of-thought,
  tree-of-thought, consistency validation returns on the draft: each enabled stage is
  applied to the previous stage's output and the context, each disabled stage passes its
  input on, and with all three disabled the result is the draft itself.
\<close>

theorem process_query_stage_order:
  "process_query config api_call ms query context active parameters =
     pipeline_spec
       [(cot active, cot_process ms), (tot active, tot_explore ms),
        (validation active, validation_validate ms)]
       context (api_call (base_payload config query active parameters)) \<and>
   (\<not> cot active \<and> \<not> tot active \<and> \<not> validation active \<longrightarrow>
      process_query config api_call ms query context active parameters =
        api_call (base_payload config query active parameters))"
proof -
  have r: "process_query config api_call ms query context active parameters =
     pipeline_spec (stage_list ms active) context
       (api_call (base_payload config query active parameters))"
    by (rule process_query_refines)
  have "pipeline_spec (stage_list ms active) context d = d"
    if "\<not> cot active \<and> \<not> tot active \<and> \<not> validation active" for d
    using that by (intro pipeline_spec_all_disabled) (simp add: stage_list_def)
  with r show ?thesis by (simp add: stage_list_def)
qed

theorem process_query_stage_order_witness:
  "process_query \<lparr>base_model = ''base'', enhanced_mode = ''enhanced''\<rparr>
      (\<lambda>p. ''draft'') tagging_modules ''q'' ''ctx''
      \<lparr>cot = False, tot = False, validation = False\<rparr>
      \<lparr>temperature = 0.7, max_length = 1024, top_p = None, repetition_penalty = None\<rparr> =
     ''draft'' \<and>
   process_query \<lparr>base_model = ''base'', enhanced_mode = ''enhanced''\<rparr>
      (\<lambda>p. ''draft'') tagging_modules ''q'' ''ctx''
      \<lparr>cot = True, tot = False, validation = True\<rparr>
      \<lparr>temperature = 0.7, max_length = 1024, top_p = None, repetition_penalty = None\<rparr> =
     ''draft+cot+val(ctx)''"
  using process_query_stage_order [of "\<lparr>base_model = ''base'', enhanced_mode = ''enhanced''\<rparr>"
      "\<lambda>p. ''draft''" tagging_modules "''q''" "''ctx''"
      "\<lparr>cot = False, tot = False, validation = False\<rparr>"
      "\<lparr>temperature = 0.7, max_length = 1024, top_p = None, repetition_penalty = None\<rparr>"]
    process_query_stage_order [of "\<lparr>base_model = ''base'', enhanced_mode = ''enhanced''\<rparr>"
      "\<lambda>p. ''draft''" tagging_modules "''q''" "''ctx''"
      "\<lparr>cot = True, tot = False, validation = True\<rparr>"
      "\<lparr>temperature = 0.7, max_length = 1024, top_p = None, repetition_penalty = None\<rparr>"]
  by (simp add: pipeline_spec_def run_stage_def tagging_modules_def)

subsection \<open>updateInstructions\<close>

lemma js_is_space_nl: "js_is_space nl"
  by (simp add: js_is_space_def nl_def)

lemma js_trim_snoc_space:
  assumes "js_is_space c"
  shows "js_trim (s @ [c]) = js_trim s"
proof (cases "\<forall>x\<in>set s. js_is_space x")
  case True
  then have h: "dropWhile js_is_space (s @ [c]) = []" "dropWhile js_is_space s = []"
    using assms by (simp_all add: dropWhile_eq_Nil_conv)
  show ?thesis unfolding js_trim_def h by simp
next
  case False
  then obtain x where "x \<in> set s" "\<not> js_is_space x" by blast
  then have "dropWhile js_is_space (s @ [c]) = dropWhile js_is_space s @ [c]"
    by (rule dropWhile_append1)
  then show ?thesis using assms by (simp add: js_trim_def)
qed

lemma concat_lines_join:
  "ls \<noteq> [] \<Longrightarrow> concat (map (\<lambda>l. l @ [nl]) ls) = join [nl] ls @ [nl]"
  by (induction "[nl]" ls rule: join.induct) auto

lemma js_trim_lines: "js_trim (concat (map (\<lambda>l. l @ [nl]) ls)) = js_trim (join [nl] ls)"
proof (cases "ls = []")
  case True
  then show ?thesis by simp
next
  case False
  then have "concat (map (\<lambda>l. l @ [nl]) ls) = join [nl] ls @ [nl]"
    by (rule concat_lines_join)
  then show ?thesis
    using js_trim_snoc_space [OF js_is_space_nl, of "join [nl] ls"] by simp
qed

lemma fold_lines:
  "\<not> closed st \<Longrightarrow>
   fold rl_emit (map Line ls) st =
     st\<lparr>newInstructions := newInstructions st @ concat (map (\<lambda>l. l @ [nl]) ls)\<rparr>"
proof (induction ls arbitrary: st)
  case Nil
  then show ?case by simp
next
  case (Cons l ls)
  have "rl_emit (Line l) st = st\<lparr>newInstructions := newInstructions st @ l @ [nl]\<rparr>"
    using Cons.prems by (simp add: rl_emit_def on_line_def)
  moreover have "\<not> closed (st\<lparr>newInstructions := newInstructions st @ l @ [nl]\<rparr>)"
    using Cons.prems by simp
  ultimately show ?case
    using Cons.IH by simp
qed

lemma fold_closed: "closed st \<Longrightarrow> fold rl_emit evs st = st"
  by (induction evs) (auto simp: rl_emit_def)

lemma terminator_resolves:
  assumes "t = EndOfInput \<or> t = Sigint" and "\<not> closed st" and "result st = Pending"
  shows "closed (rl_emit t st) \<and> result (rl_emit t st) = Resolved (js_trim (newInstructions st))"
  using assms
  by (auto simp: rl_emit_def rl_close_def on_sigint_def on_close_def resolve_def console_log_def
      Let_def)

lemma rl_emit_not_rejected:
  "result st \<noteq> Rejected m \<Longrightarrow> result (rl_emit ev st) \<noteq> Rejected m"
  by (cases ev)
    (auto simp: rl_emit_def on_line_def rl_close_def on_sigint_def on_close_def resolve_def
      console_log_def Let_def)

lemma fold_not_rejected:
  "result st \<noteq> Rejected m \<Longrightarrow> result (fold rl_emit evs st) \<noteq> Rejected m"
  by (induction evs arbitrary: st) (auto simp: rl_emit_not_rejected)

text \<open>
  C10. For every sequence of input lines ended by the end of the input or by SIGINT
  (whatever events follow), the promise of \<open>updateInstructions\<close> is resolved with the lines
  received so far, joined by newlines and trimmed of white space at both ends; and under
  no sequence of events is the promise rejected.
\<close>

theorem updateInstructions_resolves:
  assumes "t = EndOfInput \<or> t = Sigint"
  shows "updateInstructions (map Line ls @ t # rest) = Resolved (js_trim (join [nl] ls)) \<and>
         (\<forall>events m. updateInstructions events \<noteq> Rejected m)"
proof -
  let ?st = "initial_state\<lparr>newInstructions := concat (map (\<lambda>l. l @ [nl]) ls)\<rparr>"
  have open0: "\<not> closed initial_state" by (simp add: initial_state_def)
  have "fold rl_emit (map Line ls) initial_state = ?st"
    using fold_lines [OF open0, of ls] by (simp add: initial_state_def)
  then have "fold rl_emit (map Line ls @ t # rest) initial_state =
      fold rl_emit rest (rl_emit t ?st)"
    by simp
  moreover have "\<not> closed ?st" "result ?st = Pending"
    by (simp_all add: initial_state_def)
  then have "closed (rl_emit t ?st) \<and>
      result (rl_emit t ?st) = Resolved (js_trim (newInstructions ?st))"
    using terminator_resolves [OF assms] by blast
  ultimately have "updateInstructions (map Line ls @ t # rest) =
      Resolved (js_trim (concat (map (\<lambda>l. l @ [nl]) ls)))"
    by (simp add: updateInstructions_def fold_closed)
  then have 1: "updateInstructions (map Line ls @ t # rest) = Resolved (js_trim (join [nl] ls))"
    by (simp only: js_trim_lines)
  have 2: "updateInstructions events \<noteq> Rejected m" for events m
    unfolding updateInstructions_def
    by (rule fold_not_rejected) (simp add: initial_state_def)
  from 1 2 show ?thesis by blast
qed

theorem updateInstructions_resolves_witness:
  "(Sigint = EndOfInput \<or> Sigint = Sigint) \<and>
   updateInstructions [Line ''  be brief'', Line ''cite notes  '', Sigint, Line ''late''] =
     Resolved (''be brief'' @ [nl] @ ''cite notes'')"
  using updateInstructions_resolves [of Sigint "[''  be brief'', ''cite notes  '']"
      "[Line ''late'']", THEN conjunct1]
  by (simp add: js_trim_def js_is_space_def nl_def)

end
